theory Spec2Isabelle
  imports Main "HOL-Library.Sublist" "HOL-Library.List_Lexorder" "HOL-Library.Char_ord"
    "HOL-Library.Product_Lexorder"
begin

section \<open>Strings and paths\<close>

text \<open>
  A Python \<open>str\<close> is modelled as a \<open>string\<close>. \<open>str.lower()\<close> is modelled on the
  ASCII letters; what it does to other characters is not part of the model.
\<close>

definition lower_char :: "char \<Rightarrow> char" where
  "lower_char c =
     (case map_of (zip ''ABCDEFGHIJKLMNOPQRSTUVWXYZ'' ''abcdefghijklmnopqrstuvwxyz'') c of
        None \<Rightarrow> c
      | Some l \<Rightarrow> l)"

definition lower :: "string \<Rightarrow> string" where
  "lower s = map lower_char s"

text \<open>\<open>sep.join(parts)\<close> with the separator \<open>/\<close>, and \<open>s.split("/")\<close>.\<close>

fun join_slash :: "string list \<Rightarrow> string" where
  "join_slash [] = []"
| "join_slash [x] = x"
| "join_slash (x # y # ys) = x @ ''/'' @ join_slash (y # ys)"

fun split_slash :: "string \<Rightarrow> string list" where
  "split_slash [] = [[]]"
| "split_slash (c # cs) =
     (if c = CHR ''/'' then [] # split_slash cs
      else (case split_slash cs of
              [] \<Rightarrow> [[c]]
            | w # ws \<Rightarrow> (c # w) # ws))"

text \<open>
  Every path the tools build is an absolute POSIX path (\<open>config.py\<close> builds them from the
  absolute \<open>VAULT_PATH\<close>): the list of its components below the root directory.
  \<open>str(path)\<close> joins them after a leading slash.
\<close>

type_synonym path = "string list"

definition str_path :: "path \<Rightarrow> string" where
  "str_path p = ''/'' @ join_slash p"

text \<open>
  \<open>path / segment\<close> of \<open>pathlib\<close>: the segment is split at the slashes, empty components
  and \<open>.\<close> are dropped, \<open>..\<close> is kept as it is; an absolute segment replaces the left
  operand. (A segment that starts with exactly two slashes is not part of the model.)
\<close>

definition parse_parts :: "string \<Rightarrow> string list" where
  "parse_parts s = filter (\<lambda>c. c \<noteq> [] \<and> c \<noteq> ''.'') (split_slash s)"

definition path_join :: "path \<Rightarrow> string \<Rightarrow> path" where
  "path_join p s = (if s \<noteq> [] \<and> hd s = CHR ''/'' then parse_parts s else p @ parse_parts s)"

section \<open>Configuration (\<open>config.py\<close>)\<close>

definition VAULT_PATH :: path where
  "VAULT_PATH =
     [''Users'', ''chaosisnotrandomitisrythmic'', ''Documents'', ''obsedian'', ''chaos_isrhythmic'']"

definition TARGET_FOLDER :: string where
  "TARGET_FOLDER = ''Scanner Daybook''"

definition TARGET_FOLDER_PATH :: path where
  "TARGET_FOLDER_PATH = path_join VAULT_PATH TARGET_FOLDER"

definition VAULT_CLAUDE_MD :: path where
  "VAULT_CLAUDE_MD = path_join VAULT_PATH ''CLAUDE.md''"

definition TARGET_CLAUDE_MD :: path where
  "TARGET_CLAUDE_MD = path_join TARGET_FOLDER_PATH ''CLAUDE.md''"

section \<open>The file system the tools read\<close>

text \<open>
  A local date and time, as \<open>datetime.fromtimestamp\<close> and \<open>datetime.now\<close> give it, and
  \<open>strftime("%Y-%m-%d %H:%M:%S")\<close> on it (years of four digits).
\<close>

record datetime =
  year :: nat
  month :: nat
  day :: nat
  hour :: nat
  minute :: nat
  second :: nat

definition digit :: "nat \<Rightarrow> char" where
  "digit n = ''0123456789'' ! (n mod 10)"

definition dec2 :: "nat \<Rightarrow> string" where
  "dec2 n = [digit (n div 10), digit n]"

definition dec4 :: "nat \<Rightarrow> string" where
  "dec4 n = [digit (n div 1000), digit (n div 100), digit (n div 10), digit n]"

definition strftime :: "datetime \<Rightarrow> string" where
  "strftime d =
     dec4 (year d) @ ''-'' @ dec2 (month d) @ ''-'' @ dec2 (day d) @ '' '' @
     dec2 (hour d) @ '':'' @ dec2 (minute d) @ '':'' @ dec2 (second d)"

text \<open>
  What \<open>read_text(encoding="utf-8")\<close> does with a regular file: it returns the text, or
  the decoder rejects the bytes (with the detail of its message), or the file may not be
  opened. The bytes and the decoder themselves are not modelled.
\<close>

datatype filedata = Text string | NotUtf8 string | Unreadable

text \<open>
  The part of \<open>os.stat_result\<close> the tools read, with \<open>st_mtime\<close> kept as the local date
  and time \<open>datetime.fromtimestamp\<close> makes of it.
\<close>

record stat_result =
  st_size :: nat
  st_mtime :: datetime

text \<open>
  A node is a regular file, a directory with its entries (in the order the operating
  system lists them), or a directory that the process may neither list nor search.
  Symbolic links are not part of the model. The file system is the node of the root
  directory \<open>/\<close>; it does not change during a call.
\<close>

datatype node =
    File filedata stat_result
  | Dir "(string \<times> node) list" stat_result
  | Locked stat_result

definition meta :: "node \<Rightarrow> stat_result" where
  "meta n = (case n of File d st \<Rightarrow> st | Dir es st \<Rightarrow> st | Locked st \<Rightarrow> st)"

definition is_dir :: "node \<Rightarrow> bool" where
  "is_dir n = (case n of File d st \<Rightarrow> False | Dir es st \<Rightarrow> True | Locked st \<Rightarrow> True)"

datatype errno = ENOENT | ENOTDIR | EACCES | EISDIR

text \<open>
  The exceptions of the model. \<open>ToolError\<close> is the one of \<open>fastmcp.exceptions\<close>; the others
  are the interpreter's and the library's.
\<close>

datatype exn =
    ToolError string
  | OSError errno path
  | UnicodeDecodeError string
  | TypeError string
  | IndexError string

definition strerror :: "errno \<Rightarrow> string" where
  "strerror e =
     (case e of
        ENOENT \<Rightarrow> ''[Errno 2] No such file or directory''
      | ENOTDIR \<Rightarrow> ''[Errno 20] Not a directory''
      | EACCES \<Rightarrow> ''[Errno 13] Permission denied''
      | EISDIR \<Rightarrow> ''[Errno 21] Is a directory'')"

text \<open>\<open>str(e)\<close>. (The file name of an \<open>OSError\<close> is shown between plain quotes.)\<close>

definition str_exn :: "exn \<Rightarrow> string" where
  "str_exn e =
     (case e of
        ToolError m \<Rightarrow> m
      | OSError n p \<Rightarrow> strerror n @ '': '' @ [CHR 0x27] @ str_path p @ [CHR 0x27]
      | UnicodeDecodeError d \<Rightarrow>
          [CHR 0x27] @ ''utf-8'' @ [CHR 0x27] @ '' codec can'' @ [CHR 0x27] @ ''t decode '' @ d
      | TypeError m \<Rightarrow> m
      | IndexError m \<Rightarrow> m)"

text \<open>
  Path resolution of the operating system, from the node \<open>cur\<close> with the directories above
  it (\<open>up\<close>, nearest first): \<open>..\<close> goes to the parent, and stays at the root.
\<close>

fun resolve :: "node \<Rightarrow> node list \<Rightarrow> path \<Rightarrow> errno + node" where
  "resolve cur up [] = Inr cur"
| "resolve cur up (c # cs) =
     (case cur of
        File d st \<Rightarrow> Inl ENOTDIR
      | Locked st \<Rightarrow> Inl EACCES
      | Dir es st \<Rightarrow>
          (if c = ''..'' then
             (case up of [] \<Rightarrow> resolve cur [] cs | u # us \<Rightarrow> resolve u us cs)
           else
             (case map_of es c of
                None \<Rightarrow> Inl ENOENT
              | Some n \<Rightarrow> resolve n (cur # up) cs)))"

definition lookup :: "node \<Rightarrow> path \<Rightarrow> errno + node" where
  "lookup fs p = resolve fs [] p"

text \<open>\<open>Path.stat()\<close>.\<close>

definition stat :: "node \<Rightarrow> path \<Rightarrow> exn + stat_result" where
  "stat fs p =
     (case lookup fs p of
        Inl e \<Rightarrow> Inl (OSError e p)
      | Inr n \<Rightarrow> Inr (meta n))"

text \<open>
  \<open>Path.exists()\<close> and \<open>Path.is_file()\<close>: a \<open>stat\<close>, where a missing path is \<open>False\<close> and
  any other failure is raised.
\<close>

definition path_exists :: "node \<Rightarrow> path \<Rightarrow> exn + bool" where
  "path_exists fs p =
     (case lookup fs p of
        Inr n \<Rightarrow> Inr True
      | Inl ENOENT \<Rightarrow> Inr False
      | Inl ENOTDIR \<Rightarrow> Inr False
      | Inl e \<Rightarrow> Inl (OSError e p))"

definition is_file :: "node \<Rightarrow> path \<Rightarrow> exn + bool" where
  "is_file fs p =
     (case lookup fs p of
        Inr n \<Rightarrow> Inr (\<not> is_dir n)
      | Inl ENOENT \<Rightarrow> Inr False
      | Inl ENOTDIR \<Rightarrow> Inr False
      | Inl e \<Rightarrow> Inl (OSError e p))"

text \<open>\<open>Path.read_text(encoding="utf-8")\<close>.\<close>

definition read_text :: "node \<Rightarrow> path \<Rightarrow> exn + string" where
  "read_text fs p =
     (case lookup fs p of
        Inl e \<Rightarrow> Inl (OSError e p)
      | Inr (File d st) \<Rightarrow>
          (case d of
             Text t \<Rightarrow> Inr t
           | NotUtf8 detail \<Rightarrow> Inl (UnicodeDecodeError detail)
           | Unreadable \<Rightarrow> Inl (OSError EACCES p))
      | Inr (Dir es st) \<Rightarrow> Inl (OSError EISDIR p)
      | Inr (Locked st) \<Rightarrow> Inl (OSError EACCES p))"

section \<open>The tools\<close>

text \<open>
  Every tool is \<open>try: body except Exception as e: raise ToolError(f"<prefix>{str(e)}")\<close>.
  A \<open>ToolError\<close> raised in the body is an \<open>Exception\<close> too, and is wrapped again.
\<close>

definition tool_boundary :: "string \<Rightarrow> exn + 'a \<Rightarrow> exn + 'a" where
  "tool_boundary pre r =
     (case r of
        Inl e \<Rightarrow> Inl (ToolError (pre @ str_exn e))
      | Inr v \<Rightarrow> Inr v)"

subsection \<open>\<open>tools/navigation.py\<close>\<close>

record navigation =
  path :: string
  content :: string
  loaded :: bool
  message :: string

definition load_navigation_context :: "node \<Rightarrow> exn + navigation" where
  "load_navigation_context fs =
     tool_boundary ''Failed to load navigation context: ''
       (case path_exists fs VAULT_CLAUDE_MD of
          Inl e \<Rightarrow> Inl e
        | Inr False \<Rightarrow>
            Inl (ToolError (''Navigation file not found at '' @ str_path VAULT_CLAUDE_MD))
        | Inr True \<Rightarrow>
            (case read_text fs VAULT_CLAUDE_MD of
               Inl e \<Rightarrow> Inl e
             | Inr data \<Rightarrow>
                 Inr \<lparr> path = str_path VAULT_CLAUDE_MD,
                       content = data,
                       loaded = True,
                       message = ''Top-level navigation context loaded successfully'' \<rparr>))"

definition load_target_folder_context :: "node \<Rightarrow> exn + navigation" where
  "load_target_folder_context fs =
     tool_boundary ''Failed to load target folder context: ''
       (case path_exists fs TARGET_CLAUDE_MD of
          Inl e \<Rightarrow> Inl e
        | Inr False \<Rightarrow>
            Inr \<lparr> path = str_path TARGET_CLAUDE_MD,
                  content = '''',
                  loaded = False,
                  message = ''No CLAUDE.md found in target folder: '' @ str_path TARGET_FOLDER_PATH \<rparr>
        | Inr True \<Rightarrow>
            (case read_text fs TARGET_CLAUDE_MD of
               Inl e \<Rightarrow> Inl e
             | Inr data \<Rightarrow>
                 Inr \<lparr> path = str_path TARGET_CLAUDE_MD,
                       content = data,
                       loaded = True,
                       message = ''Target folder navigation loaded successfully'' \<rparr>))"

definition discover_subdirectory_navigation :: "node \<Rightarrow> string \<Rightarrow> exn + navigation" where
  "discover_subdirectory_navigation fs subdirectory =
     tool_boundary ''Failed to discover subdirectory navigation: ''
       (let subdir_path = path_join VAULT_PATH subdirectory;
            claude_md_path = path_join subdir_path ''CLAUDE.md''
        in case path_exists fs subdir_path of
             Inl e \<Rightarrow> Inl e
           | Inr False \<Rightarrow> Inl (ToolError (''Subdirectory not found: '' @ str_path subdir_path))
           | Inr True \<Rightarrow>
               (case path_exists fs claude_md_path of
                  Inl e \<Rightarrow> Inl e
                | Inr False \<Rightarrow>
                    Inr \<lparr> path = str_path claude_md_path,
                          content = '''',
                          loaded = False,
                          message = ''No CLAUDE.md found in '' @ subdirectory \<rparr>
                | Inr True \<Rightarrow>
                    (case read_text fs claude_md_path of
                       Inl e \<Rightarrow> Inl e
                     | Inr data \<Rightarrow>
                         Inr \<lparr> path = str_path claude_md_path,
                               content = data,
                               loaded = True,
                               message = ''Subdirectory navigation for '' @ subdirectory @
                                         '' loaded successfully'' \<rparr>)))"

text \<open>
  \<open>os.walk(top)\<close> with its defaults (\<open>topdown=True\<close>, \<open>onerror=None\<close>): a directory whose
  \<open>scandir\<close> fails is skipped without an error, since no \<open>onerror\<close> handler is given;
  otherwise the directory is yielded with the names of its directories and of its other
  entries, and then its directories are walked in that order.
\<close>

fun walk :: "node \<Rightarrow> path \<Rightarrow> (path \<times> string list \<times> string list) list" where
  "walk (Dir es st) root =
     (root,
      map fst (filter (\<lambda>e. is_dir (snd e)) es),
      map fst (filter (\<lambda>e. \<not> is_dir (snd e)) es))
     # concat (map (\<lambda>e. walk (snd e) (root @ [fst e])) (filter (\<lambda>e. is_dir (snd e)) es))"
| "walk (File d st) root = []"
| "walk (Locked st) root = []"

definition os_walk :: "node \<Rightarrow> path \<Rightarrow> (path \<times> string list \<times> string list) list" where
  "os_walk fs dir =
     (case lookup fs dir of
        Inl e \<Rightarrow> []
      | Inr n \<Rightarrow> walk n dir)"

text \<open>
  \<open>os.path.normpath\<close> and \<open>os.path.relpath\<close> on absolute paths, and
  \<open>os.path.commonprefix\<close> of two lists.
\<close>

definition normpath :: "path \<Rightarrow> path" where
  "normpath p =
     rev (foldl (\<lambda>new_comps comp.
                  if comp = [] \<or> comp = ''.'' then new_comps
                  else if comp \<noteq> ''..'' then comp # new_comps
                  else (case new_comps of [] \<Rightarrow> [] | c # cs \<Rightarrow> cs)) [] p)"

fun commonprefix :: "'a list \<Rightarrow> 'a list \<Rightarrow> 'a list" where
  "commonprefix (x # xs) (y # ys) = (if x = y then x # commonprefix xs ys else [])"
| "commonprefix xs ys = []"

definition relpath :: "path \<Rightarrow> path \<Rightarrow> string" where
  "relpath p start =
     (let start_list = normpath start;
          path_list = normpath p;
          i = length (commonprefix start_list path_list);
          rel_list = replicate (length start_list - i) ''..'' @ drop i path_list
      in if rel_list = [] then ''.'' else join_slash rel_list)"

record navigation_files =
  available_navigation :: "string list"
  total_count :: nat
  vault_path :: string
  target_folder :: string

definition walk_directory :: "node \<Rightarrow> string list" where
  "walk_directory fs =
     concat (map (\<lambda>(root, dirs, files).
                    if ''CLAUDE.md'' \<in> set files then
                      (let rel_path = relpath root VAULT_PATH
                       in if rel_path = ''.'' then [''/ (root)''] else [rel_path])
                    else [])
                 (os_walk fs VAULT_PATH))"

definition list_navigation_files :: "node \<Rightarrow> exn + navigation_files" where
  "list_navigation_files fs =
     tool_boundary ''Failed to list navigation files: ''
       (let navigation_files = walk_directory fs
        in Inr \<lparr> available_navigation = navigation_files,
                 total_count = length navigation_files,
                 vault_path = str_path VAULT_PATH,
                 target_folder = str_path TARGET_FOLDER_PATH \<rparr>)"

subsection \<open>\<open>tools/custom.py\<close>\<close>

text \<open>
  \<open>PurePath.name\<close> and \<open>PurePath.suffix\<close>: the suffix starts at the last dot of the name,
  unless that dot is the first or the last character.
\<close>

definition path_name :: "path \<Rightarrow> string" where
  "path_name p = (if p = [] then [] else last p)"

definition rfind :: "char \<Rightarrow> string \<Rightarrow> int" where
  "rfind c s =
     (case filter (\<lambda>i. s ! i = c) (rev [0..<length s]) of
        [] \<Rightarrow> - 1
      | i # is \<Rightarrow> int i)"

definition path_suffix :: "path \<Rightarrow> string" where
  "path_suffix p =
     (let name = path_name p; i = rfind (CHR ''.'') name
      in if 0 < i \<and> i < int (length name) - 1 then drop (nat i) name else [])"

record file_entry =
  entry_name :: string
  entry_path :: string
  entry_size :: nat
  modified :: string
  extension :: string

record folder_listing =
  listing_target_folder :: string
  folder_path :: string
  files :: "file_entry list"
  listing_total_count :: nat
  filter_used :: string

text \<open>
  The body of the \<open>for\<close> loop of \<open>_list_files\<close>, over the items it is given: an item that
  is a regular file and passes the extension filter is appended to \<open>folder_files\<close>.
\<close>

fun list_files_loop :: "node \<Rightarrow> string \<Rightarrow> path list \<Rightarrow> exn + file_entry list" where
  "list_files_loop fs file_extension [] = Inr []"
| "list_files_loop fs file_extension (item # items) =
     (case is_file fs item of
        Inl e \<Rightarrow> Inl e
      | Inr False \<Rightarrow> list_files_loop fs file_extension items
      | Inr True \<Rightarrow>
          (if file_extension = [] \<or> lower (path_suffix item) = ''.'' @ lower file_extension then
             (case stat fs item of
                Inl e \<Rightarrow> Inl e
              | Inr stat_info \<Rightarrow>
                  (case list_files_loop fs file_extension items of
                     Inl e \<Rightarrow> Inl e
                   | Inr folder_files \<Rightarrow>
                       Inr (\<lparr> entry_name = path_name item,
                              entry_path = str_path item,
                              entry_size = st_size stat_info,
                              modified = strftime (st_mtime stat_info),
                              extension = path_suffix item \<rparr> # folder_files)))
           else list_files_loop fs file_extension items))"

text \<open>
  \<open>sorted(xs, key=key, reverse=True)\<close>: the list is reversed, sorted by the key in
  ascending order by a stable sort, and reversed again, so that items of equal keys keep
  their order.
\<close>

definition sorted_reverse :: "('a \<Rightarrow> 'k::linorder) \<Rightarrow> 'a list \<Rightarrow> 'a list" where
  "sorted_reverse key xs = rev (sort_key key (rev xs))"

text \<open>What \<open>_list_files\<close> returns once the loop has run over \<open>items\<close>.\<close>

definition list_files_from :: "node \<Rightarrow> string \<Rightarrow> path list \<Rightarrow> exn + file_entry list" where
  "list_files_from fs file_extension items =
     (case list_files_loop fs file_extension items of
        Inl e \<Rightarrow> Inl e
      | Inr folder_files \<Rightarrow> Inr (sorted_reverse modified folder_files))"

text \<open>
  The items of a directory, as an iteration over \<open>Path.iterdir()\<close> yields them: the paths
  of its entries.
\<close>

definition iterdir :: "node \<Rightarrow> path \<Rightarrow> exn + path list" where
  "iterdir fs p =
     (case lookup fs p of
        Inl e \<Rightarrow> Inl (OSError e p)
      | Inr (Dir es st) \<Rightarrow> Inr (map (\<lambda>e. p @ [fst e]) es)
      | Inr (File d st) \<Rightarrow> Inl (OSError ENOTDIR p)
      | Inr (Locked st) \<Rightarrow> Inl (OSError EACCES p))"

text \<open>
  The loop header of \<open>_list_files\<close> is \<open>for item in await anyio.Path(...).iterdir()\<close>.
  \<open>anyio.Path.iterdir\<close> is not a coroutine function: it returns an asynchronous iterator
  (to be used with \<open>async for\<close>), which has no \<open>__await__\<close>. The \<open>await\<close> expression
  therefore raises \<open>TypeError\<close> before the directory is read, whatever the directory is.
\<close>

definition await_iterdir :: "node \<Rightarrow> path \<Rightarrow> exn + path list" where
  "await_iterdir fs p =
     Inl (TypeError (''object _PathIterator can'' @ [CHR 0x27] @ ''t be used in '' @
                     [CHR 0x27] @ ''await'' @ [CHR 0x27] @ '' expression''))"

definition list_files :: "node \<Rightarrow> string \<Rightarrow> exn + file_entry list" where
  "list_files fs file_extension =
     (case await_iterdir fs TARGET_FOLDER_PATH of
        Inl e \<Rightarrow> Inl e
      | Inr items \<Rightarrow> list_files_from fs file_extension items)"

definition list_target_folder_files :: "node \<Rightarrow> string \<Rightarrow> exn + folder_listing" where
  "list_target_folder_files fs file_extension =
     tool_boundary ''Failed to list target folder files: ''
       (case path_exists fs TARGET_FOLDER_PATH of
          Inl e \<Rightarrow> Inl e
        | Inr False \<Rightarrow>
            Inl (ToolError (''Target folder not found: '' @ str_path TARGET_FOLDER_PATH))
        | Inr True \<Rightarrow>
            (case list_files fs file_extension of
               Inl e \<Rightarrow> Inl e
             | Inr fl \<Rightarrow>
                 Inr \<lparr> listing_target_folder = TARGET_FOLDER,
                       folder_path = str_path TARGET_FOLDER_PATH,
                       files = fl,
                       listing_total_count = length fl,
                       filter_used = (if file_extension = [] then ''all files''
                                      else file_extension) \<rparr>))"

record file_content =
  fc_filename :: string
  fc_path :: string
  fc_content :: string
  fc_size :: nat
  fc_modified :: string
  fc_target_folder :: string
  fc_loaded :: bool

definition load_target_folder_file :: "node \<Rightarrow> string \<Rightarrow> exn + file_content" where
  "load_target_folder_file fs filename =
     tool_boundary (''Failed to load file '' @ filename @ '': '')
       (let file_path = path_join TARGET_FOLDER_PATH filename
        in case path_exists fs file_path of
             Inl e \<Rightarrow> Inl e
           | Inr False \<Rightarrow>
               Inl (ToolError (''File not found: '' @ filename @ '' in '' @ TARGET_FOLDER))
           | Inr True \<Rightarrow>
               (case read_text fs file_path of
                  Inl e \<Rightarrow> Inl e
                | Inr data \<Rightarrow>
                    (case stat fs file_path of
                       Inl e \<Rightarrow> Inl e
                     | Inr stat_info \<Rightarrow>
                         Inr \<lparr> fc_filename = filename,
                               fc_path = str_path file_path,
                               fc_content = data,
                               fc_size = st_size stat_info,
                               fc_modified = strftime (st_mtime stat_info),
                               fc_target_folder = TARGET_FOLDER,
                               fc_loaded = True \<rparr>)))"

subsection \<open>\<open>tools/time.py\<close>\<close>

text \<open>
  What the tool reads of the \<open>time\<close> module and the clock: \<open>datetime.now()\<close>, the pair
  \<open>time.tzname\<close> (the name of the local zone without and with daylight saving) and
  \<open>time.daylight\<close>, which is nonzero when the local zone defines a daylight-saving time
  at all. \<open>dst_in_effect\<close> says whether daylight-saving time applies at the instant of
  the call (\<open>time.localtime().tm_isdst\<close>); the tool does not read it.
\<close>

record clock =
  now :: datetime
  tzname :: "string \<times> string"
  daylight :: int
  dst_in_effect :: bool

text \<open>Indexing a pair: \<open>t[i]\<close>, with the negative indices of Python.\<close>

definition tuple_index :: "'a \<times> 'a \<Rightarrow> int \<Rightarrow> exn + 'a" where
  "tuple_index t i =
     (if i = 0 \<or> i = - 2 then Inr (fst t)
      else if i = 1 \<or> i = - 1 then Inr (snd t)
      else Inl (IndexError ''tuple index out of range''))"

record time_reading =
  time :: string
  timezone :: string

definition get_current_time :: "clock \<Rightarrow> exn + time_reading" where
  "get_current_time clk =
     tool_boundary ''Failed to get current time: ''
       (case tuple_index (tzname clk) (daylight clk) of
          Inl e \<Rightarrow> Inl e
        | Inr timezone_name \<Rightarrow>
            Inr \<lparr> time = strftime (now clk), timezone = timezone_name \<rparr>)"

section \<open>A vault to run the tools on\<close>

text \<open>
  The vault of the configuration with a marker file at its root and in the target folder,
  two notes, a file without an extension, a file that is not UTF-8, a subdirectory with a
  marker file, a directory that may not be listed, and a file next to the vault.
\<close>

definition at_time :: "nat \<Rightarrow> nat \<Rightarrow> stat_result" where
  "at_time sz d =
     \<lparr> st_size = sz,
       st_mtime = \<lparr> year = 2025, month = 1, day = d, hour = 9, minute = 30, second = 0 \<rparr> \<rparr>"

definition demo_target :: node where
  "demo_target =
     Dir [(''CLAUDE.md'', File (Text ''# Daybook'') (at_time 9 10)),
          (''a.md'', File (Text ''alpha'') (at_time 5 14)),
          (''b.md'', File (Text ''beta'') (at_time 4 15)),
          (''README'', File (Text ''read me'') (at_time 7 12)),
          (''blob.bin'', File (NotUtf8 ''byte 0xff in position 0: invalid start byte'') (at_time 1 11)),
          (''sub'', Dir [(''CLAUDE.md'', File (Text ''# Sub'') (at_time 5 13))] (at_time 96 13))]
         (at_time 256 15)"

definition demo_vault :: node where
  "demo_vault =
     Dir [(''CLAUDE.md'', File (Text ''# Vault'') (at_time 7 10)),
          (''Scanner Daybook'', demo_target),
          (''private'', Locked (at_time 64 10)),
          (''Empty'', Dir [] (at_time 64 10))]
         (at_time 160 15)"

definition demo_fs :: node where
  "demo_fs =
     Dir [(''Users'',
       Dir [(''chaosisnotrandomitisrythmic'',
         Dir [(''Documents'',
           Dir [(''obsedian'',
             Dir [(''chaos_isrhythmic'', demo_vault),
                  (''secret'', File (Text ''top secret'') (at_time 10 1))]
                 (at_time 128 15))]
               (at_time 96 15))]
             (at_time 96 15))]
           (at_time 96 15))]
         (at_time 96 15)"

text \<open>
  A second vault, without marker files: a directory of notes and a directory that may
  not be listed.
\<close>

definition bare_fs :: node where
  "bare_fs =
     Dir [(''Users'',
       Dir [(''chaosisnotrandomitisrythmic'',
         Dir [(''Documents'',
           Dir [(''obsedian'',
             Dir [(''chaos_isrhythmic'',
               Dir [(''notes'', Dir [(''todo.md'', File (Text ''later'') (at_time 5 2))] (at_time 64 2)),
                    (''private'', Locked (at_time 64 10))]
                   (at_time 96 15))]
                 (at_time 96 15))]
               (at_time 96 15))]
             (at_time 96 15))]
           (at_time 96 15))]
         (at_time 96 15)"

section \<open>Notions the properties are stated with\<close>

text \<open>A path is absent when its resolution ends at a missing entry or at a file.\<close>

definition absent :: "node \<Rightarrow> path \<Rightarrow> bool" where
  "absent fs p = (lookup fs p = Inl ENOENT \<or> lookup fs p = Inl ENOTDIR)"

text \<open>
  An outcome is surfaced with a prefix when it is a result, or a \<open>ToolError\<close> whose
  message starts with the prefix.
\<close>

definition surfaced :: "string \<Rightarrow> exn + 'a \<Rightarrow> bool" where
  "surfaced pre r =
     (case r of
        Inr v \<Rightarrow> True
      | Inl (ToolError m) \<Rightarrow> prefix pre m
      | Inl e \<Rightarrow> False)"


text \<open>
  The items of the target folder of the vault above, and the entry the loop makes of a
  file of that folder.
\<close>

definition demo_items :: "path list" where
  "demo_items =
     map (\<lambda>n. TARGET_FOLDER_PATH @ [n])
       [''CLAUDE.md'', ''a.md'', ''b.md'', ''README'', ''blob.bin'', ''sub'']"

definition demo_entry :: "string \<Rightarrow> nat \<Rightarrow> nat \<Rightarrow> file_entry" where
  "demo_entry n sz d =
     \<lparr> entry_name = n,
       entry_path = str_path (TARGET_FOLDER_PATH @ [n]),
       entry_size = sz,
       modified = strftime (st_mtime (at_time sz d)),
       extension = path_suffix [n] \<rparr>"

text \<open>
  A clock in a zone with daylight-saving rules, read in winter, when daylight-saving time
  is not in effect.
\<close>

definition winter_clock :: clock where
  "winter_clock =
     \<lparr> now = \<lparr> year = 2025, month = 1, day = 15, hour = 12, minute = 0, second = 0 \<rparr>,
       tzname = (''CET'', ''CEST''),
       daylight = 1,
       dst_in_effect = False \<rparr>"

text \<open>
  The names a directory can hold: not empty, without a slash, and neither \<open>.\<close> nor \<open>..\<close>.
  In a well-formed tree every directory holds such names, each once.
\<close>

definition valid_name :: "string \<Rightarrow> bool" where
  "valid_name n = (n \<noteq> [] \<and> CHR ''/'' \<notin> set n \<and> n \<noteq> ''.'' \<and> n \<noteq> ''..'')"

fun wf_node :: "node \<Rightarrow> bool" where
  "wf_node (Dir es st) =
     (distinct (map fst es) \<and> list_all (\<lambda>e. valid_name (fst e) \<and> wf_node (snd e)) es)"
| "wf_node (File d st) = True"
| "wf_node (Locked st) = True"

text \<open>
  The node under a node at a relative path of names; a directory directly contains a
  marker file when one of its entries that are not directories is named \<open>CLAUDE.md\<close>.
\<close>

fun descend :: "node \<Rightarrow> path \<Rightarrow> node option" where
  "descend n [] = Some n"
| "descend n (c # cs) =
     (case n of
        Dir es st \<Rightarrow> (case map_of es c of None \<Rightarrow> None | Some m \<Rightarrow> descend m cs)
      | File d st \<Rightarrow> None
      | Locked st \<Rightarrow> None)"

definition has_marker :: "node \<Rightarrow> bool" where
  "has_marker n =
     (case n of
        Dir es st \<Rightarrow> ''CLAUDE.md'' \<in> set (map fst (filter (\<lambda>e. \<not> is_dir (snd e)) es))
      | File d st \<Rightarrow> False
      | Locked st \<Rightarrow> False)"

text \<open>
  The vault root of a file system, the relative paths of the vault at which a directory
  directly contains a marker file, and the entry of the result for such a path.
\<close>

definition vault :: "node \<Rightarrow> node option" where
  "vault fs = (case lookup fs VAULT_PATH of Inl e \<Rightarrow> None | Inr v \<Rightarrow> Some v)"

definition marked :: "node \<Rightarrow> path \<Rightarrow> bool" where
  "marked fs rel =
     (case vault fs of
        None \<Rightarrow> False
      | Some v \<Rightarrow> (case descend v rel of None \<Rightarrow> False | Some d \<Rightarrow> has_marker d))"

definition wf_vault :: "node \<Rightarrow> bool" where
  "wf_vault fs = (case vault fs of None \<Rightarrow> True | Some v \<Rightarrow> wf_node v)"

definition label :: "path \<Rightarrow> string" where
  "label rel = (if rel = [] then ''/ (root)'' else join_slash rel)"

text \<open>
  The relative paths of the listable directories with a marker file under a node, in the
  order of the walk.
\<close>

fun marker_paths :: "node \<Rightarrow> path list" where
  "marker_paths (Dir es st) =
     (if ''CLAUDE.md'' \<in> set (map fst (filter (\<lambda>e. \<not> is_dir (snd e)) es)) then [[]] else [])
     @ concat (map (\<lambda>e. map ((#) (fst e)) (marker_paths (snd e)))
                   (filter (\<lambda>e. is_dir (snd e)) es))"
| "marker_paths (File d st) = []"
| "marker_paths (Locked st) = []"

text \<open>
  The fields of a date and time in the order of their weight, compared as tuples, and
  the dates and times whose fields fit the widths of the format.
\<close>

definition in_range :: "datetime \<Rightarrow> bool" where
  "in_range d =
     (year d < 10000 \<and> month d < 100 \<and> day d < 100 \<and> hour d < 100 \<and> minute d < 100 \<and>
      second d < 100)"

definition stamp :: "datetime \<Rightarrow> nat \<times> nat \<times> nat \<times> nat \<times> nat \<times> nat" where
  "stamp d = (year d, month d, day d, hour d, minute d, second d)"

section \<open>Properties\<close>

subsection \<open>Evaluation and path resolution\<close>

lemmas config_defs =
  VAULT_PATH_def TARGET_FOLDER_def TARGET_FOLDER_PATH_def VAULT_CLAUDE_MD_def
  TARGET_CLAUDE_MD_def path_join_def parse_parts_def str_path_def

lemmas fs_defs =
  lookup_def stat_def path_exists_def is_file_def read_text_def meta_def is_dir_def
  tool_boundary_def str_exn_def strerror_def

lemmas demo_defs = demo_fs_def demo_vault_def demo_target_def at_time_def

lemmas custom_defs =
  list_files_from_def sorted_reverse_def iterdir_def path_name_def path_suffix_def rfind_def
  lower_def lower_char_def strftime_def dec2_def dec4_def digit_def




subsection \<open>The navigation loaders\<close>

text \<open>
  C8. \<open>load_navigation_context\<close> raises the error of the missing navigation file exactly
  when the marker file of the vault root is absent, and whatever it returns has
  \<open>loaded = True\<close> and the text of that marker file as its content: it never returns
  \<open>loaded = False\<close>.
\<close>

theorem load_navigation_context_not_found_iff:
  "(load_navigation_context fs =
      Inl (ToolError (''Failed to load navigation context: '' @
                      ''Navigation file not found at '' @ str_path VAULT_CLAUDE_MD))
    \<longleftrightarrow> absent fs VAULT_CLAUDE_MD) \<and>
   (\<forall>r. load_navigation_context fs = Inr r \<longrightarrow>
        loaded r \<and> (\<exists>st. lookup fs VAULT_CLAUDE_MD = Inr (File (Text (content r)) st)))"
  by (auto simp: load_navigation_context_def tool_boundary_def path_exists_def read_text_def
        absent_def str_exn_def strerror_def
      split: sum.splits errno.splits node.splits filedata.splits bool.splits)

theorem load_navigation_context_not_found_iff_witness:
  "load_navigation_context demo_fs =
     Inr \<lparr> path = ''/Users/chaosisnotrandomitisrythmic/Documents/obsedian/chaos_isrhythmic/CLAUDE.md'',
           content = ''# Vault'', loaded = True,
           message = ''Top-level navigation context loaded successfully'' \<rparr> \<and>
   \<not> absent demo_fs VAULT_CLAUDE_MD \<and>
   (\<exists>st. lookup demo_fs VAULT_CLAUDE_MD = Inr (File (Text ''# Vault'') st))"
proof -
  have run: "load_navigation_context demo_fs =
     Inr \<lparr> path = ''/Users/chaosisnotrandomitisrythmic/Documents/obsedian/chaos_isrhythmic/CLAUDE.md'',
           content = ''# Vault'', loaded = True,
           message = ''Top-level navigation context loaded successfully'' \<rparr>"
    by (simp add: load_navigation_context_def config_defs fs_defs demo_defs)
  from load_navigation_context_not_found_iff [of demo_fs] run show ?thesis by auto
qed



subsection \<open>The uniform error of the tools\<close>

lemma surfaced_tool_boundary: "surfaced pre (tool_boundary pre r)"
  by (cases r) (simp_all add: surfaced_def tool_boundary_def)

text \<open>
  C10, as amended. Whatever a tool raises is a \<open>ToolError\<close> whose message is the prefix of
  the tool followed by the text of the failure: no other exception leaves a tool. (That
  no failure is swallowed does not hold: see the counterexample below.)
\<close>

theorem tools_raise_only_ToolError:
  "surfaced ''Failed to get current time: '' (get_current_time clk) \<and>
   surfaced ''Failed to load navigation context: '' (load_navigation_context fs) \<and>
   surfaced ''Failed to load target folder context: '' (load_target_folder_context fs) \<and>
   surfaced ''Failed to discover subdirectory navigation: ''
     (discover_subdirectory_navigation fs subdirectory) \<and>
   surfaced ''Failed to list navigation files: '' (list_navigation_files fs) \<and>
   surfaced ''Failed to list target folder files: '' (list_target_folder_files fs file_extension) \<and>
   surfaced (''Failed to load file '' @ filename @ '': '') (load_target_folder_file fs filename)"
  unfolding get_current_time_def load_navigation_context_def load_target_folder_context_def
    discover_subdirectory_navigation_def list_navigation_files_def
    list_target_folder_files_def load_target_folder_file_def
  by (intro conjI surfaced_tool_boundary)

text \<open>
  C10 fails as stated: on a file system without the vault, listing the vault directory
  fails (\<open>ENOENT\<close>), and \<open>list_navigation_files\<close> returns an empty list all the same.
\<close>

theorem list_navigation_files_swallows_missing_vault:
  "iterdir (Dir [] (at_time 0 1)) VAULT_PATH = Inl (OSError ENOENT VAULT_PATH) \<and>
   list_navigation_files (Dir [] (at_time 0 1)) =
     Inr \<lparr> available_navigation = [], total_count = 0,
           vault_path = ''/Users/chaosisnotrandomitisrythmic/Documents/obsedian/chaos_isrhythmic'',
           target_folder = ''/Users/chaosisnotrandomitisrythmic/Documents/obsedian/chaos_isrhythmic/Scanner Daybook'' \<rparr>"
  by (simp add: iterdir_def list_navigation_files_def walk_directory_def os_walk_def
        config_defs fs_defs)

subsection \<open>The clock\<close>

text \<open>
  C4 does not hold of the code. The zone name is \<open>time.tzname[time.daylight]\<close>, and
  \<open>time.daylight\<close> says whether the zone has a daylight-saving time at all, not whether
  it is in effect: the result does not depend on \<open>dst_in_effect\<close>, and in winter the tool
  names the summer zone.
\<close>

theorem get_current_time_ignores_dst:
  "get_current_time (clk\<lparr>dst_in_effect := b\<rparr>) = get_current_time clk \<and>
   \<not> dst_in_effect winter_clock \<and>
   get_current_time winter_clock =
     Inr \<lparr> time = ''2025-01-15 12:00:00'', timezone = ''CEST'' \<rparr>"
  by (simp add: get_current_time_def winter_clock_def tuple_index_def tool_boundary_def
        strftime_def dec2_def dec4_def digit_def)

subsection \<open>Loading a file of the target folder\<close>




text \<open>
  C6. \<open>load_target_folder_file\<close> returns exactly when the path joined from the target
  folder and the file name, whatever its components, leads to a regular file with a
  readable text, and then it returns that path and the text of the file there: no file
  name is rejected. For the file name \<open>../../secret\<close> the joined path keeps both \<open>..\<close>; it
  normalises to a path outside the target folder, where the vault above has a file, and
  the tool returns the text of that file.
\<close>

theorem load_target_folder_file_no_sanitization:
  "((\<exists>r. load_target_folder_file fs filename = Inr r) \<longleftrightarrow>
      (\<exists>t st. lookup fs (path_join TARGET_FOLDER_PATH filename) = Inr (File (Text t) st))) \<and>
   (\<forall>r. load_target_folder_file fs filename = Inr r \<longrightarrow>
      fc_path r = str_path (path_join TARGET_FOLDER_PATH filename) \<and>
      (\<exists>st. lookup fs (path_join TARGET_FOLDER_PATH filename) = Inr (File (Text (fc_content r)) st))) \<and>
   path_join TARGET_FOLDER_PATH ''../../secret'' = TARGET_FOLDER_PATH @ [''..'', ''..'', ''secret''] \<and>
   normpath (path_join TARGET_FOLDER_PATH ''../../secret'') =
     [''Users'', ''chaosisnotrandomitisrythmic'', ''Documents'', ''obsedian'', ''secret''] \<and>
   \<not> prefix TARGET_FOLDER_PATH (normpath (path_join TARGET_FOLDER_PATH ''../../secret'')) \<and>
   lookup demo_fs [''Users'', ''chaosisnotrandomitisrythmic'', ''Documents'', ''obsedian'', ''secret''] =
     Inr (File (Text ''top secret'') (at_time 10 1)) \<and>
   load_target_folder_file demo_fs ''../../secret'' =
     Inr \<lparr> fc_filename = ''../../secret'',
           fc_path = ''/Users/chaosisnotrandomitisrythmic/Documents/obsedian/chaos_isrhythmic/Scanner Daybook/../../secret'',
           fc_content = ''top secret'',
           fc_size = 10,
           fc_modified = ''2025-01-01 09:30:00'',
           fc_target_folder = ''Scanner Daybook'',
           fc_loaded = True \<rparr>"
proof (intro conjI)
  show "(\<exists>r. load_target_folder_file fs filename = Inr r) \<longleftrightarrow>
      (\<exists>t st. lookup fs (path_join TARGET_FOLDER_PATH filename) = Inr (File (Text t) st))"
    by (auto simp: load_target_folder_file_def path_exists_def read_text_def
        stat_def meta_def tool_boundary_def Let_def
      split: sum.splits errno.splits node.splits filedata.splits)
  show "\<forall>r. load_target_folder_file fs filename = Inr r \<longrightarrow>
      fc_path r = str_path (path_join TARGET_FOLDER_PATH filename) \<and>
      (\<exists>st. lookup fs (path_join TARGET_FOLDER_PATH filename) = Inr (File (Text (fc_content r)) st))"
    by (auto simp: load_target_folder_file_def path_exists_def read_text_def
        stat_def meta_def tool_boundary_def Let_def
      split: sum.splits errno.splits node.splits filedata.splits)
qed (simp_all add: load_target_folder_file_def normpath_def config_defs fs_defs demo_defs
       strftime_def dec2_def dec4_def digit_def)

theorem load_target_folder_file_no_sanitization_witness:
  "''..'' \<in> set (path_join TARGET_FOLDER_PATH ''../../secret'') \<and>
   lookup demo_fs (path_join TARGET_FOLDER_PATH ''../../secret'') =
     Inr (File (Text ''top secret'') (at_time 10 1)) \<and>
   (\<exists>r. load_target_folder_file demo_fs ''../../secret'' = Inr r \<and>
        fc_content r = ''top secret'')"
proof -
  have a: "''..'' \<in> set (path_join TARGET_FOLDER_PATH ''../../secret'')"
    by (simp add: config_defs)
  have b: "lookup demo_fs (path_join TARGET_FOLDER_PATH ''../../secret'') =
     Inr (File (Text ''top secret'') (at_time 10 1))"
    by (simp add: config_defs fs_defs demo_defs)
  note returns = load_target_folder_file_no_sanitization
    [of demo_fs "''../../secret''", THEN conjunct1]
  note reads = load_target_folder_file_no_sanitization
    [of demo_fs "''../../secret''", THEN conjunct2, THEN conjunct1]
  from returns b obtain r where r: "load_target_folder_file demo_fs ''../../secret'' = Inr r"
    by blast
  with reads b have "fc_content r = ''top secret''"
    by auto
  with r have c: "\<exists>r. load_target_folder_file demo_fs ''../../secret'' = Inr r \<and>
        fc_content r = ''top secret''"
    by blast
  show ?thesis by (intro conjI a b c)
qed

subsection \<open>Listing the target folder\<close>

text \<open>
  C2 does not hold of the code. \<open>list_target_folder_files\<close> never returns: when the
  target folder exists, the \<open>await\<close> on \<open>iterdir()\<close> raises, and the tool raises the
  wrapped \<open>TypeError\<close>. In the vault above the target folder has six entries, five of them
  regular files.
\<close>

theorem list_target_folder_files_never_returns:
  "(\<forall>r. list_target_folder_files fs file_extension \<noteq> Inr r) \<and>
   iterdir demo_fs TARGET_FOLDER_PATH = Inr demo_items \<and>
   length (filter (\<lambda>item. is_file demo_fs item = Inr True) demo_items) = 5 \<and>
   list_target_folder_files demo_fs [] =
     Inl (ToolError (''Failed to list target folder files: '' @
                     ''object _PathIterator can'' @ [CHR 0x27] @ ''t be used in '' @
                     [CHR 0x27] @ ''await'' @ [CHR 0x27] @ '' expression''))"
proof (intro conjI)
  show "\<forall>r. list_target_folder_files fs file_extension \<noteq> Inr r"
    by (auto simp: list_target_folder_files_def list_files_def await_iterdir_def
          tool_boundary_def split: sum.splits bool.splits)
  show "iterdir demo_fs TARGET_FOLDER_PATH = Inr demo_items"
    by (simp add: demo_items_def iterdir_def config_defs fs_defs demo_defs)
  show "length (filter (\<lambda>item. is_file demo_fs item = Inr True) demo_items) = 5"
    by (simp add: demo_items_def config_defs fs_defs demo_defs)
  show "list_target_folder_files demo_fs [] =
     Inl (ToolError (''Failed to list target folder files: '' @
                     ''object _PathIterator can'' @ [CHR 0x27] @ ''t be used in '' @
                     [CHR 0x27] @ ''await'' @ [CHR 0x27] @ '' expression''))"
    by (simp add: list_target_folder_files_def list_files_def await_iterdir_def
          config_defs fs_defs demo_defs)
qed

text \<open>The loop of \<open>_list_files\<close> and its filter.\<close>

lemma set_sorted_reverse: "set (sorted_reverse key xs) = set xs"
  by (simp add: sorted_reverse_def)

lemma length_sorted_reverse: "length (sorted_reverse key xs) = length xs"
  by (simp add: sorted_reverse_def)








lemma demo_loop_all:
  "list_files_loop demo_fs [] demo_items =
     Inr [demo_entry ''CLAUDE.md'' 9 10, demo_entry ''a.md'' 5 14, demo_entry ''b.md'' 4 15,
          demo_entry ''README'' 7 12, demo_entry ''blob.bin'' 1 11]"
  by (simp add: demo_items_def demo_entry_def custom_defs config_defs fs_defs demo_defs)





subsection \<open>The walk of the vault\<close>

lemma walk_marker_paths:
  "concat (map (\<lambda>(r, dirs, files). if ''CLAUDE.md'' \<in> set files then g r else [])
               (walk n root)) =
   concat (map (\<lambda>rel. g (root @ rel)) (marker_paths n))"
proof (induction n root rule: walk.induct)
  case (1 es st root)
  have "concat (map (\<lambda>(r, dirs, files). if ''CLAUDE.md'' \<in> set files then g r else [])
          (concat (map (\<lambda>e. walk (snd e) (root @ [fst e])) (filter (\<lambda>e. is_dir (snd e)) es)))) =
        concat (map (\<lambda>rel. g (root @ rel))
          (concat (map (\<lambda>e. map ((#) (fst e)) (marker_paths (snd e)))
             (filter (\<lambda>e. is_dir (snd e)) es))))"
    using 1 by (induction es) (auto simp: comp_def)
  then show ?case by simp
qed simp_all

lemma normpath_fold_valid:
  "list_all valid_name p \<Longrightarrow>
     foldl (\<lambda>new_comps comp.
              if comp = [] \<or> comp = ''.'' then new_comps
              else if comp \<noteq> ''..'' then comp # new_comps
              else (case new_comps of [] \<Rightarrow> [] | c # cs \<Rightarrow> cs)) acc p = rev p @ acc"
  by (induction p arbitrary: acc) (auto simp: valid_name_def)

lemma normpath_valid: "list_all valid_name p \<Longrightarrow> normpath p = p"
  by (simp add: normpath_def normpath_fold_valid)

lemma commonprefix_append: "commonprefix xs (xs @ ys) = xs"
  by (induction xs) simp_all

lemma valid_VAULT_PATH: "list_all valid_name VAULT_PATH"
  by (simp add: VAULT_PATH_def valid_name_def)

lemma relpath_vault:
  assumes "list_all valid_name rel"
  shows "relpath (VAULT_PATH @ rel) VAULT_PATH = (if rel = [] then ''.'' else join_slash rel)"
proof -
  from assms valid_VAULT_PATH have "normpath (VAULT_PATH @ rel) = VAULT_PATH @ rel"
    by (simp add: normpath_valid)
  moreover from valid_VAULT_PATH have "normpath VAULT_PATH = VAULT_PATH"
    by (rule normpath_valid)
  ultimately show ?thesis
    by (simp add: relpath_def Let_def commonprefix_append)
qed

lemma split_slash_plain: "CHR ''/'' \<notin> set x \<Longrightarrow> split_slash x = [x]"
  by (induction x) auto

lemma split_slash_append:
  "CHR ''/'' \<notin> set x \<Longrightarrow> split_slash (x @ CHR ''/'' # rest) = x # split_slash rest"
  by (induction x) auto

lemma split_join_slash:
  "rel \<noteq> [] \<Longrightarrow> list_all valid_name rel \<Longrightarrow> split_slash (join_slash rel) = rel"
  by (induction rel rule: join_slash.induct)
     (auto simp: valid_name_def split_slash_plain split_slash_append)

lemma label_inj:
  assumes "list_all valid_name a" "list_all valid_name b" "label a = label b"
  shows "a = b"
proof -
  have root: "join_slash rel \<noteq> ''/ (root)''" if "rel \<noteq> []" "list_all valid_name rel" for rel
  proof
    assume "join_slash rel = ''/ (root)''"
    then have "split_slash (join_slash rel) = split_slash ''/ (root)''" by simp
    with that have "rel = [[], '' (root)'']" by (simp add: split_join_slash)
    with that show False by (simp add: valid_name_def)
  qed
  show ?thesis
  proof (cases "a = []")
    case True
    with assms root [of b] show ?thesis by (auto simp: label_def split: if_splits)
  next
    case False
    with assms root [of a] have b: "b \<noteq> []" and eq: "join_slash a = join_slash b"
      by (auto simp: label_def split: if_splits)
    from False assms(1) have "a = split_slash (join_slash a)"
      by (rule split_join_slash [symmetric])
    also have "\<dots> = split_slash (join_slash b)"
      unfolding eq ..
    also from b assms(2) have "\<dots> = b"
      by (rule split_join_slash)
    finally show ?thesis .
  qed
qed

lemma join_slash_not_dot:
  assumes "rel \<noteq> []" "list_all valid_name rel"
  shows "join_slash rel \<noteq> ''.''"
proof
  assume "join_slash rel = ''.''"
  then have "split_slash (join_slash rel) = split_slash ''.''" by simp
  with assms have "rel = [''.'']" by (simp add: split_join_slash)
  with assms show False by (simp add: valid_name_def)
qed

lemma marker_paths_valid:
  "wf_node n \<Longrightarrow> rel \<in> set (marker_paths n) \<Longrightarrow> list_all valid_name rel"
proof (induction n arbitrary: rel rule: marker_paths.induct)
  case (1 es st)
  from "1.prems"(2) consider "rel = []"
    | e tl where "e \<in> set es" "is_dir (snd e)" "tl \<in> set (marker_paths (snd e))" "rel = fst e # tl"
    by (auto split: if_splits)
  then show ?case
  proof cases
    case 1
    then show ?thesis by simp
  next
    case 2
    from "1.prems"(1) 2(1) have "valid_name (fst e)" "wf_node (snd e)"
      by (auto simp: list_all_iff)
    with "1.IH" [of e tl] 2 show ?thesis by simp
  qed
qed simp_all

lemma marker_paths_descend:
  "wf_node n \<Longrightarrow>
     rel \<in> set (marker_paths n) \<longleftrightarrow> (\<exists>d. descend n rel = Some d \<and> has_marker d)"
proof (induction n arbitrary: rel rule: marker_paths.induct)
  case (1 es st)
  from "1.prems" have dist: "distinct (map fst es)"
    and wf: "\<And>e. e \<in> set es \<Longrightarrow> wf_node (snd e)"
    by (auto simp: list_all_iff)
  show ?case
  proof (cases rel)
    case Nil
    then show ?thesis by (auto simp: has_marker_def)
  next
    case (Cons c cs)
    have "rel \<in> set (marker_paths (Dir es st)) \<longleftrightarrow>
          (\<exists>m. (c, m) \<in> set es \<and> is_dir m \<and> cs \<in> set (marker_paths m))"
      using Cons by (auto split: if_splits)
    also have "\<dots> \<longleftrightarrow> (\<exists>m. (c, m) \<in> set es \<and> (\<exists>d. descend m cs = Some d \<and> has_marker d))"
    proof (intro iff_exI conj_cong refl)
      fix m assume m: "(c, m) \<in> set es"
      show "is_dir m \<and> cs \<in> set (marker_paths m) \<longleftrightarrow> (\<exists>d. descend m cs = Some d \<and> has_marker d)"
      proof (cases "is_dir m")
        case True
        with "1.IH" [of "(c, m)" cs] m wf [of "(c, m)"] show ?thesis by simp
      next
        case False
        then obtain d st' where "m = File d st'" by (cases m) (auto simp: is_dir_def)
        then show ?thesis by (cases cs) (auto simp: has_marker_def is_dir_def)
      qed
    qed
    also have "\<dots> \<longleftrightarrow> (\<exists>d. descend (Dir es st) rel = Some d \<and> has_marker d)"
      using Cons dist by (auto split: option.splits dest: eq_key_imp_eq_value)
    finally show ?thesis .
  qed
next
  case (2 d st)
  then show ?case by (cases rel) (auto simp: has_marker_def)
next
  case (3 st)
  then show ?case by (cases rel) (auto simp: has_marker_def)
qed




lemma walk_directory_marker_paths:
  assumes "wf_vault fs"
  shows "walk_directory fs =
           (case vault fs of None \<Rightarrow> [] | Some v \<Rightarrow> map label (marker_paths v))"
proof (cases "lookup fs VAULT_PATH")
  case (Inl e)
  then show ?thesis by (simp add: walk_directory_def os_walk_def vault_def)
next
  case (Inr v)
  with assms have wf: "wf_node v" by (simp add: wf_vault_def vault_def)
  let ?g = "\<lambda>root. let rel_path = relpath root VAULT_PATH
                    in if rel_path = ''.'' then [''/ (root)''] else [rel_path]"
  have "walk_directory fs =
          concat (map (\<lambda>(r, dirs, files). if ''CLAUDE.md'' \<in> set files then ?g r else [])
                      (walk v VAULT_PATH))"
    using Inr by (simp add: walk_directory_def os_walk_def)
  also have "\<dots> = concat (map (\<lambda>rel. ?g (VAULT_PATH @ rel)) (marker_paths v))"
    by (rule walk_marker_paths)
  also have "\<dots> = concat (map (\<lambda>rel. [label rel]) (marker_paths v))"
  proof (intro arg_cong [where f = concat] map_cong refl)
    fix rel assume "rel \<in> set (marker_paths v)"
    with wf have valid: "list_all valid_name rel" by (rule marker_paths_valid)
    show "?g (VAULT_PATH @ rel) = [label rel]"
    proof (cases "rel = []")
      case True
      with relpath_vault [of "[]"] show ?thesis by (simp add: label_def)
    next
      case False
      with valid join_slash_not_dot [of rel] show ?thesis
        by (simp add: relpath_vault label_def)
    qed
  qed
  also have "\<dots> = map label (marker_paths v)"
    by (induction "marker_paths v") simp_all
  finally show ?thesis using Inr by (simp add: vault_def)
qed

lemma marked_marker_paths:
  assumes "wf_vault fs" "vault fs = Some v"
  shows "{rel. marked fs rel} = set (marker_paths v)"
  using assms
  by (auto simp: wf_vault_def marked_def marker_paths_descend split: option.splits)

lemma list_navigation_files_result:
  "list_navigation_files fs =
     Inr \<lparr> available_navigation = walk_directory fs,
           total_count = length (walk_directory fs),
           vault_path = str_path VAULT_PATH,
           target_folder = str_path TARGET_FOLDER_PATH \<rparr>"
  by (simp add: list_navigation_files_def tool_boundary_def Let_def)


lemma demo_navigation:
  "list_navigation_files demo_fs =
     Inr \<lparr> available_navigation = [''/ (root)'', ''Scanner Daybook'', ''Scanner Daybook/sub''],
           total_count = 3,
           vault_path = ''/Users/chaosisnotrandomitisrythmic/Documents/obsedian/chaos_isrhythmic'',
           target_folder = ''/Users/chaosisnotrandomitisrythmic/Documents/obsedian/chaos_isrhythmic/Scanner Daybook'' \<rparr>"
  by (simp add: list_navigation_files_def walk_directory_def os_walk_def relpath_def normpath_def
        config_defs fs_defs demo_defs)



lemma descend_append:
  "descend n (a @ b) = (case descend n a of None \<Rightarrow> None | Some m \<Rightarrow> descend m b)"
  by (induction a arbitrary: n) (auto split: node.splits option.splits)

lemma descend_valid:
  "wf_node n \<Longrightarrow> descend n rel = Some m \<Longrightarrow> list_all valid_name rel"
proof (induction rel arbitrary: n)
  case Nil
  then show ?case by simp
next
  case (Cons c cs)
  from Cons.prems(2) obtain es st k where n: "n = Dir es st" and k: "map_of es c = Some k"
    and rest: "descend k cs = Some m"
    by (auto split: node.splits option.splits)
  from k have "(c, k) \<in> set es" by (rule map_of_SomeD)
  with Cons.prems(1) n have "valid_name c" "wf_node k" by (auto simp: list_all_iff)
  with Cons.IH [of k] rest show ?case by simp
qed

lemma locked_not_listed:
  assumes wf: "wf_vault fs" and v: "vault fs = Some v"
    and locked: "descend v rel = Some (Locked st)" and below: "list_all valid_name below"
  shows "label (rel @ below) \<notin> set (walk_directory fs)"
proof
  assume "label (rel @ below) \<in> set (walk_directory fs)"
  with wf v obtain p where p: "p \<in> set (marker_paths v)" and eq: "label p = label (rel @ below)"
    by (auto simp: walk_directory_marker_paths)
  from wf v have wfv: "wf_node v" by (simp add: wf_vault_def)
  from wfv p have "list_all valid_name p" by (rule marker_paths_valid)
  moreover from wfv locked below have "list_all valid_name (rel @ below)"
    by (simp add: descend_valid)
  ultimately have "p = rel @ below" using eq by (rule label_inj)
  with p wfv obtain d where "descend v (rel @ below) = Some d" "has_marker d"
    by (auto simp: marker_paths_descend)
  with locked show False
    by (cases below) (auto simp: descend_append has_marker_def)
qed

text \<open>
  C3, as amended. \<open>list_navigation_files\<close> always returns, with the count of its list:
  a directory that cannot be listed raises nothing in \<open>os.walk\<close>. When the vault root
  is not a directory that can be listed (it is missing, a file, or may not be listed),
  and when no directory of a well-formed vault directly contains a marker file, the
  list is empty. A directory of the vault that may not be listed is skipped: the list
  has no entry for it or for a path below it.
\<close>

theorem list_navigation_files_skips_unlistable:
  "\<exists>r. list_navigation_files fs = Inr r \<and>
       total_count r = length (available_navigation r) \<and>
       ((\<forall>es st. lookup fs VAULT_PATH \<noteq> Inr (Dir es st)) \<longrightarrow> available_navigation r = []) \<and>
       (wf_vault fs \<and> (\<forall>rel. \<not> marked fs rel) \<longrightarrow> available_navigation r = []) \<and>
       (\<forall>v rel st below.
           wf_vault fs \<and> vault fs = Some v \<and> descend v rel = Some (Locked st) \<and>
           list_all valid_name below \<longrightarrow>
           label (rel @ below) \<notin> set (available_navigation r))"
proof -
  have unlistable: "walk_directory fs = []"
    if nodir: "\<forall>es st. lookup fs VAULT_PATH \<noteq> Inr (Dir es st)"
  proof -
    have "os_walk fs VAULT_PATH = []"
    proof (cases "lookup fs VAULT_PATH")
      case (Inl e)
      then show ?thesis by (simp add: os_walk_def)
    next
      case (Inr n)
      with nodir show ?thesis by (cases n) (simp_all add: os_walk_def)
    qed
    then show ?thesis by (simp add: walk_directory_def)
  qed
  have unmarked: "walk_directory fs = []" if a: "wf_vault fs \<and> (\<forall>rel. \<not> marked fs rel)"
  proof (cases "vault fs")
    case None
    with a show ?thesis by (simp add: walk_directory_marker_paths)
  next
    case (Some v)
    with a marked_marker_paths [of fs v] have "set (marker_paths v) = {}" by auto
    with a Some show ?thesis by (simp add: walk_directory_marker_paths)
  qed
  show ?thesis
    unfolding list_navigation_files_result
    using unlistable unmarked locked_not_listed by auto
qed

theorem list_navigation_files_skips_unlistable_witness:
  "(\<forall>es st. lookup (Dir [] (at_time 0 1)) VAULT_PATH \<noteq> Inr (Dir es st)) \<and>
   (\<exists>r. list_navigation_files (Dir [] (at_time 0 1)) = Inr r \<and> available_navigation r = [] \<and>
        total_count r = 0) \<and>
   wf_vault bare_fs \<and> (\<forall>rel. \<not> marked bare_fs rel) \<and>
   (\<exists>es st. lookup bare_fs VAULT_PATH = Inr (Dir es st)) \<and>
   (\<exists>v. vault bare_fs = Some v \<and> descend v [''private''] = Some (Locked (at_time 64 10))) \<and>
   list_all valid_name [''CLAUDE.md''] \<and>
   (\<exists>r. list_navigation_files bare_fs = Inr r \<and> available_navigation r = [] \<and>
        total_count r = 0 \<and>
        label ([''private''] @ [''CLAUDE.md'']) \<notin> set (available_navigation r))"
proof -
  have a: "\<forall>es st. lookup (Dir [] (at_time 0 1)) VAULT_PATH \<noteq> Inr (Dir es st)"
    by (simp add: config_defs fs_defs)
  let ?v = "Dir [(''notes'', Dir [(''todo.md'', File (Text ''later'') (at_time 5 2))] (at_time 64 2)),
                        (''private'', Locked (at_time 64 10))]
                       (at_time 96 15)"
  have v: "vault bare_fs = Some ?v"
    by (simp add: vault_def bare_fs_def config_defs fs_defs)
  have wf: "wf_vault bare_fs"
    by (simp add: wf_vault_def v valid_name_def)
  have none: "\<forall>rel. \<not> marked bare_fs rel"
    using marked_marker_paths [OF wf v] by (simp add: is_dir_def)
  have dir: "\<exists>es st. lookup bare_fs VAULT_PATH = Inr (Dir es st)"
    using v by (auto simp: vault_def split: sum.splits)
  have locked: "descend ?v [''private''] = Some (Locked (at_time 64 10))"
    by simp
  have name: "list_all valid_name [''CLAUDE.md'']"
    by (simp add: valid_name_def)
  from list_navigation_files_skips_unlistable [of "Dir [] (at_time 0 1)"] a
  have missing: "\<exists>r. list_navigation_files (Dir [] (at_time 0 1)) = Inr r \<and>
        available_navigation r = [] \<and> total_count r = 0"
    by auto
  from list_navigation_files_skips_unlistable [of bare_fs] wf none v locked name
  have bare: "\<exists>r. list_navigation_files bare_fs = Inr r \<and> available_navigation r = [] \<and>
        total_count r = 0 \<and>
        label ([''private''] @ [''CLAUDE.md'']) \<notin> set (available_navigation r)"
    by auto
  from v locked have l: "\<exists>v. vault bare_fs = Some v \<and>
      descend v [''private''] = Some (Locked (at_time 64 10))"
    by blast
  show ?thesis by (intro conjI a missing wf none dir l name bare)
qed

text \<open>
  C3 fails as stated: the walk of the vault above lists the directory \<open>private\<close> in the
  vault root, listing that directory fails with \<open>EACCES\<close>, and the tool returns its list
  without an error.
\<close>

theorem list_navigation_files_swallows_permission_denied:
  "hd (os_walk demo_fs VAULT_PATH) =
     (VAULT_PATH, [''Scanner Daybook'', ''private'', ''Empty''], [''CLAUDE.md'']) \<and>
   iterdir demo_fs (VAULT_PATH @ [''private'']) =
     Inl (OSError EACCES (VAULT_PATH @ [''private''])) \<and>
   list_navigation_files demo_fs =
     Inr \<lparr> available_navigation = [''/ (root)'', ''Scanner Daybook'', ''Scanner Daybook/sub''],
           total_count = 3,
           vault_path = ''/Users/chaosisnotrandomitisrythmic/Documents/obsedian/chaos_isrhythmic'',
           target_folder = ''/Users/chaosisnotrandomitisrythmic/Documents/obsedian/chaos_isrhythmic/Scanner Daybook'' \<rparr>"
proof (intro conjI)
  show "hd (os_walk demo_fs VAULT_PATH) =
     (VAULT_PATH, [''Scanner Daybook'', ''private'', ''Empty''], [''CLAUDE.md''])"
    by (simp add: os_walk_def config_defs fs_defs demo_defs)
  show "iterdir demo_fs (VAULT_PATH @ [''private'']) =
     Inl (OSError EACCES (VAULT_PATH @ [''private'']))"
    by (simp add: iterdir_def config_defs fs_defs demo_defs)
qed (rule demo_navigation)

subsection \<open>Further properties of the listing and of the loaders\<close>

lemma sorted_reverse_sorted: "sorted (rev (map key (sorted_reverse key xs)))"
  by (simp add: sorted_reverse_def rev_map)

lemma sorted_reverse_stable:
  "filter (\<lambda>x. key x = k) (sorted_reverse key xs) = filter (\<lambda>x. key x = k) xs"
  by (simp add: sorted_reverse_def rev_filter [symmetric] sort_key_stable)

lemma list_files_loop_length:
  "list_files_loop fs [] items = Inr es \<Longrightarrow>
     length es = length (filter (\<lambda>item. is_file fs item = Inr True) items)"
  by (induction items arbitrary: es) (auto split: sum.splits bool.splits)

text \<open>
  What \<open>_list_files\<close> returns over any items is the list the loop made, in descending
  order of \<open>modified\<close>, with the entries of equal \<open>modified\<close> in the order of the loop;
  without a filter it has one entry for each item that is a regular file.
\<close>

theorem list_files_from_sorted_by_modified:
  "list_files_from fs file_extension items = Inr es \<Longrightarrow>
     sorted (rev (map modified es)) \<and>
     (\<exists>raw. list_files_loop fs file_extension items = Inr raw \<and>
        set es = set raw \<and> length es = length raw \<and>
        (\<forall>k. filter (\<lambda>e. modified e = k) es = filter (\<lambda>e. modified e = k) raw)) \<and>
     (file_extension = [] \<longrightarrow>
        length es = length (filter (\<lambda>item. is_file fs item = Inr True) items))"
proof -
  assume "list_files_from fs file_extension items = Inr es"
  then obtain raw where raw: "list_files_loop fs file_extension items = Inr raw"
    and es: "es = sorted_reverse modified raw"
    by (auto simp: list_files_from_def split: sum.splits)
  have "sorted (rev (map modified es))"
    unfolding es by (rule sorted_reverse_sorted)
  moreover have "set es = set raw" "length es = length raw"
    unfolding es by (simp_all add: set_sorted_reverse length_sorted_reverse)
  moreover have "filter (\<lambda>e. modified e = k) es = filter (\<lambda>e. modified e = k) raw" for k
    unfolding es by (rule sorted_reverse_stable)
  moreover have "length es = length (filter (\<lambda>item. is_file fs item = Inr True) items)"
    if "file_extension = []"
    using raw that \<open>length es = length raw\<close> by (simp add: list_files_loop_length)
  ultimately show ?thesis using raw by blast
qed

theorem list_files_from_sorted_by_modified_witness:
  "\<exists>es. list_files_from demo_fs [] demo_items = Inr es \<and>
        sorted (rev (map modified es)) \<and> length es = 5"
proof -
  obtain es where es: "list_files_from demo_fs [] demo_items = Inr es"
    by (simp add: list_files_from_def demo_loop_all)
  have five: "length (filter (\<lambda>item. is_file demo_fs item = Inr True) demo_items) = 5"
    by (simp add: demo_items_def config_defs fs_defs demo_defs)
  from list_files_from_sorted_by_modified [OF es] five have "sorted (rev (map modified es)) \<and> length es = 5"
    by simp
  with es show ?thesis by blast
qed

text \<open>
  \<open>load_target_folder_context\<close> raises nothing when the marker file of the target folder
  is absent: it returns \<open>loaded = False\<close> with an empty content and a message; when the
  marker file is a readable text, it returns \<open>loaded = True\<close> with that text.
\<close>

theorem load_target_folder_context_missing_marker:
  "(absent fs TARGET_CLAUDE_MD \<longrightarrow>
      load_target_folder_context fs =
        Inr \<lparr> path = str_path TARGET_CLAUDE_MD, content = [], loaded = False,
              message = ''No CLAUDE.md found in target folder: '' @ str_path TARGET_FOLDER_PATH \<rparr>) \<and>
   (\<forall>t st. lookup fs TARGET_CLAUDE_MD = Inr (File (Text t) st) \<longrightarrow>
      load_target_folder_context fs =
        Inr \<lparr> path = str_path TARGET_CLAUDE_MD, content = t, loaded = True,
              message = ''Target folder navigation loaded successfully'' \<rparr>)"
  by (auto simp: load_target_folder_context_def absent_def path_exists_def read_text_def
        tool_boundary_def)

theorem load_target_folder_context_missing_marker_witness:
  "absent bare_fs TARGET_CLAUDE_MD \<and>
   load_target_folder_context bare_fs =
     Inr \<lparr> path = ''/Users/chaosisnotrandomitisrythmic/Documents/obsedian/chaos_isrhythmic/Scanner Daybook/CLAUDE.md'',
           content = [], loaded = False,
           message = ''No CLAUDE.md found in target folder: /Users/chaosisnotrandomitisrythmic/Documents/obsedian/chaos_isrhythmic/Scanner Daybook'' \<rparr> \<and>
   load_target_folder_context demo_fs =
     Inr \<lparr> path = ''/Users/chaosisnotrandomitisrythmic/Documents/obsedian/chaos_isrhythmic/Scanner Daybook/CLAUDE.md'',
           content = ''# Daybook'', loaded = True,
           message = ''Target folder navigation loaded successfully'' \<rparr>"
proof -
  have a: "absent bare_fs TARGET_CLAUDE_MD"
    by (simp add: absent_def bare_fs_def config_defs fs_defs)
  have b: "lookup demo_fs TARGET_CLAUDE_MD = Inr (File (Text ''# Daybook'') (at_time 9 10))"
    by (simp add: config_defs fs_defs demo_defs)
  from load_target_folder_context_missing_marker [of bare_fs] a load_target_folder_context_missing_marker [of demo_fs] b
  show ?thesis by (simp add: config_defs)
qed

subsection \<open>The order of the formatted times\<close>

lemma of_char_digit_all: "\<forall>i\<in>{..<10}. of_char (digit i) = (48 + i :: nat)"
  by (simp add: lessThan_nat_numeral lessThan_Suc digit_def)

lemma of_char_digit: "i < 10 \<Longrightarrow> of_char (digit i) = (48 + i :: nat)"
  using of_char_digit_all by simp

lemma digit_less: "i < 10 \<Longrightarrow> j < 10 \<Longrightarrow> digit i < digit j \<longleftrightarrow> i < j"
  by (simp add: less_char_def of_char_digit)

lemma digit_eq: "i < 10 \<Longrightarrow> j < 10 \<Longrightarrow> digit i = digit j \<longleftrightarrow> i = j"
proof
  assume b: "i < 10" "j < 10" and "digit i = digit j"
  then have "(of_char (digit i) :: nat) = of_char (digit j)" by simp
  with b show "i = j" by (simp add: of_char_digit)
qed simp


lemma div_mod_less_iff:
  fixes m n k :: nat
  assumes "0 < k"
  shows "m div k < n div k \<or> m div k = n div k \<and> m mod k < n mod k \<longleftrightarrow> m < n"
proof
  assume "m div k < n div k \<or> m div k = n div k \<and> m mod k < n mod k"
  then show "m < n"
  proof
    assume "m div k < n div k"
    then show "m < n" by (rule contrapos_pp) (simp add: not_less div_le_mono)
  next
    assume a: "m div k = n div k \<and> m mod k < n mod k"
    then have eq: "m div k = n div k" and less: "m mod k < n mod k" by simp_all
    have "m = k * (m div k) + m mod k" by (rule mult_div_mod_eq [symmetric])
    also have "\<dots> = k * (n div k) + m mod k" by (simp only: eq)
    also from less have "\<dots> < k * (n div k) + n mod k" by (rule add_strict_left_mono)
    also have "\<dots> = n" by (rule mult_div_mod_eq)
    finally show "m < n" .
  qed
next
  assume less: "m < n"
  then have le: "m div k \<le> n div k" by (simp add: div_le_mono)
  show "m div k < n div k \<or> m div k = n div k \<and> m mod k < n mod k"
  proof (cases "m div k = n div k")
    case True
    have "k * (n div k) + m mod k = k * (m div k) + m mod k" by (simp only: True)
    also have "\<dots> = m" by (rule mult_div_mod_eq)
    also note less
    also have "n = k * (n div k) + n mod k" by (rule mult_div_mod_eq [symmetric])
    finally have "m mod k < n mod k" by (simp only: add_less_cancel_left)
    with True show ?thesis by simp
  next
    case False
    with le show ?thesis by simp
  qed
qed

lemma div_mod_eq_iff:
  fixes m n k :: nat
  shows "m div k = n div k \<and> m mod k = n mod k \<longleftrightarrow> m = n"
proof
  assume a: "m div k = n div k \<and> m mod k = n mod k"
  have "m = k * (m div k) + m mod k" by simp
  also from a have "\<dots> = k * (n div k) + n mod k" by simp
  also have "\<dots> = n" by simp
  finally show "m = n" .
qed simp

lemma div_1000_mod: "(n::nat) div 1000 mod 10 = n div 100 div 10 mod 10"
  by (simp add: div_mult2_eq [symmetric])

lemma div_10_mod: "(n::nat) div 10 mod 10 = n mod 100 div 10 mod 10"
proof -
  have "n mod (10 * 10) = 10 * (n div 10 mod 10) + n mod 10"
    by (rule mod_mult2_eq)
  then have "n mod 100 div 10 = n div 10 mod 10" by simp
  then show ?thesis by simp
qed

lemma mod_100_mod: "(n::nat) mod 10 = n mod 100 mod 10"
  by (simp add: mod_mod_cancel)

lemma div_100_less: "(m::nat) < 10000 \<Longrightarrow> m div 100 < 100"
  by (simp add: less_mult_imp_div_less)


lemma digit_cong: "a mod 10 = b mod 10 \<Longrightarrow> digit a = digit b"
  by (simp add: digit_def)

lemma less_append_same_length:
  fixes a b :: "'a::linorder list"
  shows "length a = length b \<Longrightarrow> a @ x < b @ y \<longleftrightarrow> a < b \<or> a = b \<and> x < y"
  by (induction a b rule: list_induct2) auto

lemma dec2_less: "m < 100 \<Longrightarrow> n < 100 \<Longrightarrow> dec2 m < dec2 n \<longleftrightarrow> m < n"
proof -
  assume m: "m < 100" and n: "n < 100"
  then have b: "m div 10 < 10" "n div 10 < 10" "m mod 10 < 10" "n mod 10 < 10"
    by simp_all
  have "dec2 m < dec2 n \<longleftrightarrow>
          digit (m div 10) < digit (n div 10) \<or>
          digit (m div 10) = digit (n div 10) \<and> digit (m mod 10) < digit (n mod 10)"
    using digit_cong [of m "m mod 10"] digit_cong [of n "n mod 10"] by (simp add: dec2_def)
  also have "\<dots> \<longleftrightarrow> m div 10 < n div 10 \<or> m div 10 = n div 10 \<and> m mod 10 < n mod 10"
    by (simp only: digit_less [OF b(1,2)] digit_eq [OF b(1,2)] digit_less [OF b(3,4)])
  also have "\<dots> \<longleftrightarrow> m < n"
    by (rule div_mod_less_iff) simp
  finally show ?thesis .
qed

lemma dec2_eq: "m < 100 \<Longrightarrow> n < 100 \<Longrightarrow> dec2 m = dec2 n \<longleftrightarrow> m = n"
proof -
  assume m: "m < 100" and n: "n < 100"
  then have b: "m div 10 < 10" "n div 10 < 10" "m mod 10 < 10" "n mod 10 < 10"
    by simp_all
  have "dec2 m = dec2 n \<longleftrightarrow>
          digit (m div 10) = digit (n div 10) \<and> digit (m mod 10) = digit (n mod 10)"
    using digit_cong [of m "m mod 10"] digit_cong [of n "n mod 10"] by (simp add: dec2_def)
  also have "\<dots> \<longleftrightarrow> m div 10 = n div 10 \<and> m mod 10 = n mod 10"
    by (simp only: digit_eq [OF b(1,2)] digit_eq [OF b(3,4)])
  also have "\<dots> \<longleftrightarrow> m = n"
    by (rule div_mod_eq_iff)
  finally show ?thesis .
qed

lemma dec4_dec2: "dec4 n = dec2 (n div 100) @ dec2 (n mod 100)"
proof -
  have "digit (n div 1000) = digit (n div 100 div 10)"
    by (rule digit_cong) (rule div_1000_mod)
  moreover have "digit (n div 10) = digit (n mod 100 div 10)"
    by (rule digit_cong) (rule div_10_mod)
  moreover have "digit n = digit (n mod 100)"
    by (rule digit_cong) (rule mod_100_mod)
  ultimately show ?thesis by (simp add: dec4_def dec2_def)
qed

lemma dec4_less: "m < 10000 \<Longrightarrow> n < 10000 \<Longrightarrow> dec4 m < dec4 n \<longleftrightarrow> m < n"
proof -
  assume m: "m < 10000" and n: "n < 10000"
  then have b: "m div 100 < 100" "n div 100 < 100" "m mod 100 < 100" "n mod 100 < 100"
    by (simp_all add: div_100_less)
  have "dec4 m < dec4 n \<longleftrightarrow>
          dec2 (m div 100) < dec2 (n div 100) \<or>
          dec2 (m div 100) = dec2 (n div 100) \<and> dec2 (m mod 100) < dec2 (n mod 100)"
    unfolding dec4_dec2 by (rule less_append_same_length) (simp add: dec2_def)
  also have "\<dots> \<longleftrightarrow> m div 100 < n div 100 \<or> m div 100 = n div 100 \<and> m mod 100 < n mod 100"
    by (simp only: dec2_less [OF b(1,2)] dec2_eq [OF b(1,2)] dec2_less [OF b(3,4)])
  also have "\<dots> \<longleftrightarrow> m < n"
    by (rule div_mod_less_iff) simp
  finally show ?thesis .
qed

lemma dec4_eq: "m < 10000 \<Longrightarrow> n < 10000 \<Longrightarrow> dec4 m = dec4 n \<longleftrightarrow> m = n"
proof -
  assume m: "m < 10000" and n: "n < 10000"
  then have b: "m div 100 < 100" "n div 100 < 100" "m mod 100 < 100" "n mod 100 < 100"
    by (simp_all add: div_100_less)
  have "dec4 m = dec4 n \<longleftrightarrow>
          dec2 (m div 100) = dec2 (n div 100) \<and> dec2 (m mod 100) = dec2 (n mod 100)"
    unfolding dec4_dec2 by (simp add: dec2_def)
  also have "\<dots> \<longleftrightarrow> m div 100 = n div 100 \<and> m mod 100 = n mod 100"
    by (simp only: dec2_eq [OF b(1,2)] dec2_eq [OF b(3,4)])
  also have "\<dots> \<longleftrightarrow> m = n"
    by (rule div_mod_eq_iff)
  finally show ?thesis .
qed

lemma length_dec [simp]: "length (dec2 n) = 2" "length (dec4 n) = 4"
  by (simp_all add: dec2_def dec4_def)

lemma strftime_less:
  assumes "in_range a" "in_range b"
  shows "strftime a < strftime b \<longleftrightarrow> stamp a < stamp b"
proof -
  from assms have r:
    "year a < 10000" "year b < 10000" "month a < 100" "month b < 100"
    "day a < 100" "day b < 100" "hour a < 100" "hour b < 100"
    "minute a < 100" "minute b < 100" "second a < 100" "second b < 100"
    by (simp_all add: in_range_def)
  have sep: "c # x < c # y \<longleftrightarrow> x < y" for c :: char and x y
    by simp
  have last: "dec2 m < dec2 n \<longleftrightarrow> dec2 m @ [] < dec2 n @ []" for m n
    by simp
  show ?thesis
    unfolding strftime_def stamp_def
    by (simp add: less_append_same_length dec4_less dec4_eq dec2_less dec2_eq r
          less_prod_simp) linarith
qed

text \<open>
  On dates and times whose fields fit the widths of the format, the order of the
  strings \<open>strftime\<close> makes is the order of the dates and times: sorting by \<open>modified\<close>
  sorts by the local modification time, to the second.
\<close>

theorem strftime_order_is_calendar_order:
  "in_range a \<Longrightarrow> in_range b \<Longrightarrow>
     (strftime a \<le> strftime b \<longleftrightarrow> stamp a \<le> stamp b) \<and>
     (strftime a = strftime b \<longleftrightarrow> stamp a = stamp b) \<and>
     length (strftime a) = 19"
proof -
  assume a: "in_range a" and b: "in_range b"
  have "strftime a \<le> strftime b \<longleftrightarrow> \<not> strftime b < strftime a" by (simp add: not_less)
  also have "\<dots> \<longleftrightarrow> \<not> stamp b < stamp a" by (simp only: strftime_less [OF b a])
  also have "\<dots> \<longleftrightarrow> stamp a \<le> stamp b" by (simp add: not_less)
  finally have le: "strftime a \<le> strftime b \<longleftrightarrow> stamp a \<le> stamp b" .
  have "strftime a = strftime b \<longleftrightarrow> \<not> strftime a < strftime b \<and> \<not> strftime b < strftime a"
    by auto
  also have "\<dots> \<longleftrightarrow> \<not> stamp a < stamp b \<and> \<not> stamp b < stamp a"
    by (simp only: strftime_less [OF a b] strftime_less [OF b a])
  also have "\<dots> \<longleftrightarrow> stamp a = stamp b"
    by auto
  finally have eq: "strftime a = strftime b \<longleftrightarrow> stamp a = stamp b" .
  have "length (strftime a) = 19" by (simp add: strftime_def)
  with le eq show ?thesis by simp
qed


theorem strftime_order_is_calendar_order_witness:
  "in_range (st_mtime (at_time 5 14)) \<and> in_range (st_mtime (at_time 4 15)) \<and>
   strftime (st_mtime (at_time 5 14)) \<le> strftime (st_mtime (at_time 4 15)) \<and>
   stamp (st_mtime (at_time 5 14)) \<le> stamp (st_mtime (at_time 4 15))"
proof -
  have a: "in_range (st_mtime (at_time 5 14))" and b: "in_range (st_mtime (at_time 4 15))"
    by (simp_all add: in_range_def at_time_def)
  have c: "stamp (st_mtime (at_time 5 14)) \<le> stamp (st_mtime (at_time 4 15))"
    by (simp add: stamp_def at_time_def less_eq_prod_simp)
  from strftime_order_is_calendar_order [OF a b] c show ?thesis using a b by simp
qed

end
